theory Spec2Isabelle
  imports Complex_Main "HOL-Library.Sublist" "HOL-Library.List_Lexorder"
begin

section \<open>Strings, JSON values and Python errors\<close>

text \<open>
  A Python \<^verbatim>\<open>str\<close> is a sequence of Unicode code points, and both \<^verbatim>\<open>str.strip()\<close> and
  the \<^verbatim>\<open>\s\<close> of \<^verbatim>\<open>re\<close> look at code points beyond ASCII. A string is therefore a list of
  code points (natural numbers); \<open>str\<close> reads an ASCII literal of the source.
\<close>

type_synonym pystr = "nat list"

definition str :: "string \<Rightarrow> pystr" where
  "str s = map of_char s"

text \<open>
  The values \<^verbatim>\<open>json.load\<close> produces. A number carries the rational it denotes: of a
  number the program only asks whether it is zero. A message of a conversation is a
  \<^verbatim>\<open>dict\<close>, kept as its list of items and read with \<open>dict_get\<close>.
\<close>

datatype json =
    JNull
  | JBool bool
  | JNum rat
  | JStr pystr
  | JArr "json list"
  | JObj "(pystr \<times> json) list"

type_synonym dict = "(pystr \<times> json) list"

datatype py_error =
    SystemExit pystr
  | AttributeError
  | IndexError
  | ValueError
  | StatisticsError
  | OSError
  | JSONDecodeError

text \<open>Python's truth value of a JSON value, as \<^verbatim>\<open>or\<close> and \<^verbatim>\<open>not\<close> test it.\<close>

fun truthy :: "json \<Rightarrow> bool" where
  "truthy JNull = False"
| "truthy (JBool b) = b"
| "truthy (JNum x) = (x \<noteq> 0)"
| "truthy (JStr s) = (s \<noteq> [])"
| "truthy (JArr xs) = (xs \<noteq> [])"
| "truthy (JObj kvs) = (kvs \<noteq> [])"

text \<open>\<^verbatim>\<open>d.get(k)\<close>: the value under the key, \<^verbatim>\<open>None\<close> when the key is absent.\<close>

definition dict_get :: "dict \<Rightarrow> pystr \<Rightarrow> json" where
  "dict_get d k = (case map_of d k of None \<Rightarrow> JNull | Some v \<Rightarrow> v)"

text \<open>\<^verbatim>\<open>x or y\<close>.\<close>

definition py_or :: "json \<Rightarrow> json \<Rightarrow> json" where
  "py_or x y = (if truthy x then x else y)"

text \<open>
  \<^verbatim>\<open>str.isspace\<close> of one code point, which is also what \<^verbatim>\<open>\s\<close> matches in a \<^verbatim>\<open>str\<close>
  pattern: tab to carriage return, the four separators U+001C to U+001F, the space,
  U+0085, U+00A0, U+1680, U+2000 to U+200A, U+2028, U+2029, U+202F, U+205F and U+3000.
\<close>

definition isspace :: "nat \<Rightarrow> bool" where
  "isspace c \<longleftrightarrow>
     (9 \<le> c \<and> c \<le> 13) \<or> (28 \<le> c \<and> c \<le> 32) \<or> c = 133 \<or> c = 160 \<or> c = 5760 \<or>
     (8192 \<le> c \<and> c \<le> 8202) \<or> c = 8232 \<or> c = 8233 \<or> c = 8239 \<or> c = 8287 \<or> c = 12288"

text \<open>\<^verbatim>\<open>[0-9]\<close>: the ten ASCII digits.\<close>

definition isdigit :: "nat \<Rightarrow> bool" where
  "isdigit c \<longleftrightarrow> 48 \<le> c \<and> c \<le> 57"

text \<open>\<^verbatim>\<open>s.strip()\<close>: the string without its leading and trailing whitespace.\<close>

definition strip :: "pystr \<Rightarrow> pystr" where
  "strip s = rev (dropWhile isspace (rev (dropWhile isspace s)))"

text \<open>
  \<^verbatim>\<open>.strip()\<close> called on a value taken from a \<^verbatim>\<open>dict\<close>: only a string has the method, any
  other value raises \<^verbatim>\<open>AttributeError\<close>.
\<close>

fun json_strip :: "json \<Rightarrow> py_error + pystr" where
  "json_strip (JStr s) = Inr (strip s)"
| "json_strip v = Inl AttributeError"

text \<open>\<^verbatim>\<open>xs[i]\<close> for an index that is not negative.\<close>

definition py_index :: "'a list \<Rightarrow> nat \<Rightarrow> py_error + 'a" where
  "py_index xs i = (if i < length xs then Inr (xs ! i) else Inl IndexError)"

section \<open>The score extractor\<close>

text \<open>
  The value of a string of ASCII digits, and \<^verbatim>\<open>float(token)\<close> on the tokens the pattern
  can capture: digits, optionally followed by a point and digits. A Python float is
  represented by the rational the token denotes; the rounding to a binary double is not
  part of the model. Any other string is answered with \<^verbatim>\<open>ValueError\<close>: Python's \<^verbatim>\<open>float\<close>
  accepts more (signs, exponents, blanks around the number), none of which the pattern
  captures.
\<close>

definition nat_of_digits :: "pystr \<Rightarrow> nat" where
  "nat_of_digits ds = foldl (\<lambda>a c. 10 * a + (c - 48)) 0 ds"

definition py_float :: "pystr \<Rightarrow> py_error + rat" where
  "py_float token =
     (let ip = takeWhile isdigit token in
      if ip = [] then Inl ValueError
      else case drop (length ip) token of
          [] \<Rightarrow> Inr (of_nat (nat_of_digits ip))
        | c # fp \<Rightarrow>
            if c = 46 \<and> fp \<noteq> [] \<and> list_all isdigit fp
            then Inr (of_nat (nat_of_digits ip) + of_nat (nat_of_digits fp) / 10 ^ length fp)
            else Inl ValueError)"

text \<open>
  The group \<^verbatim>\<open>(True|False|[0-9]+(?:\.[0-9]+)?)\<close> tried at the head of a string: the
  alternatives in their order, the digit runs greedy, the fraction taken when a point and
  at least one digit follow. Nothing comes after the group in the pattern, so the first
  way to match is the one \<^verbatim>\<open>re\<close> reports.
\<close>

definition match_token :: "pystr \<Rightarrow> pystr option" where
  "match_token r =
     (if prefix (str ''True'') r then Some (str ''True'')
      else if prefix (str ''False'') r then Some (str ''False'')
      else let ip = takeWhile isdigit r in
        if ip = [] then None
        else case drop (length ip) r of
            [] \<Rightarrow> Some ip
          | c # r' \<Rightarrow>
              (let fp = takeWhile isdigit r' in
               if c = 46 \<and> fp \<noteq> [] then Some (ip @ c # fp) else Some ip))"

text \<open>
  The whole pattern \<^verbatim>\<open>Score:\s*(...)\<close> tried at the head of a string. \<^verbatim>\<open>\s*\<close> takes all
  the whitespace there is; giving some of it back cannot help, since no alternative of
  the group starts with a whitespace character.
\<close>

definition match_at :: "pystr \<Rightarrow> pystr option" where
  "match_at s =
     (if prefix (str ''Score:'') s then match_token (dropWhile isspace (drop 6 s)) else None)"

text \<open>\<^verbatim>\<open>re.search\<close>: the match at the leftmost position that has one; the result is group 1.\<close>

fun re_search :: "pystr \<Rightarrow> pystr option" where
  "re_search [] = match_at []"
| "re_search (c # cs) =
     (case match_at (c # cs) of Some token \<Rightarrow> Some token | None \<Rightarrow> re_search cs)"

definition extract_score_from_html :: "pystr \<Rightarrow> rat option" where
  "extract_score_from_html html =
     (case re_search html of
        None \<Rightarrow> None
      | Some token \<Rightarrow>
          if token = str ''True'' \<or> token = str ''False''
          then Some (if token = str ''True'' then 1 else 0)
          else (case py_float token of Inl e \<Rightarrow> None | Inr v \<Rightarrow> Some v))"

section \<open>The empty-response detector\<close>

definition is_empty_assistant :: "dict list \<Rightarrow> py_error + bool" where
  "is_empty_assistant convo =
     (if convo = [] then Inr True
      else let last_msg = last convo in
        case json_strip (py_or (dict_get last_msg (str ''content'')) (JStr [])) of
          Inl e \<Rightarrow> Inl e
        | Inr content \<Rightarrow>
            if content = [] then Inr True
            else if prefix (str ''No response (bad request)'') content then Inr True
            else Inr False)"

section \<open>The aggregation loop\<close>

record acc =
  kept_scores :: "rat list"
  kept_htmls :: "pystr list"
  skipped :: nat

text \<open>One pass of the body of \<^verbatim>\<open>for i in range(n)\<close>.\<close>

definition loop_body :: "pystr list \<Rightarrow> dict list list \<Rightarrow> nat \<Rightarrow> acc \<Rightarrow> py_error + acc" where
  "loop_body htmls convos i a =
     (case py_index convos i of
        Inl e \<Rightarrow> Inl e
      | Inr convo \<Rightarrow>
          (case is_empty_assistant convo of
             Inl e \<Rightarrow> Inl e
           | Inr True \<Rightarrow> Inr (a\<lparr>skipped := skipped a + 1\<rparr>)
           | Inr False \<Rightarrow>
               (case py_index htmls i of
                  Inl e \<Rightarrow> Inl e
                | Inr html \<Rightarrow>
                    (case extract_score_from_html html of
                       None \<Rightarrow> Inr (a\<lparr>skipped := skipped a + 1\<rparr>)
                     | Some score \<Rightarrow>
                         Inr (a\<lparr>kept_scores := kept_scores a @ [score],
                                 kept_htmls := kept_htmls a @ [html]\<rparr>)))))"

fun run_loop :: "pystr list \<Rightarrow> dict list list \<Rightarrow> nat list \<Rightarrow> acc \<Rightarrow> py_error + acc" where
  "run_loop htmls convos [] a = Inr a"
| "run_loop htmls convos (i # is) a =
     (case loop_body htmls convos i a of
        Inl e \<Rightarrow> Inl e
      | Inr a' \<Rightarrow> run_loop htmls convos is a')"

text \<open>The loop as \<^verbatim>\<open>main\<close> runs it: from the empty lists and zero, over \<^verbatim>\<open>range(n)\<close>.\<close>

definition aggregate :: "pystr list \<Rightarrow> dict list list \<Rightarrow> py_error + acc" where
  "aggregate htmls convos =
     run_loop htmls convos [0 ..< min (length htmls) (length convos)]
       \<lparr>kept_scores = [], kept_htmls = [], skipped = 0\<rparr>"

text \<open>\<^verbatim>\<open>statistics.mean\<close>, which raises on no data.\<close>

definition mean :: "rat list \<Rightarrow> py_error + rat" where
  "mean xs = (if xs = [] then Inl StatisticsError else Inr (sum_list xs / of_nat (length xs)))"

text \<open>\<^verbatim>\<open>mean(kept_scores) if kept_scores else 0.0\<close>.\<close>

definition recomputed_acc :: "rat list \<Rightarrow> py_error + rat" where
  "recomputed_acc ks = (if ks \<noteq> [] then mean ks else Inr 0)"

section \<open>The command line and the run\<close>

text \<open>
  The parsed arguments: \<^verbatim>\<open>--file\<close> (absent, or its text) and the flag \<^verbatim>\<open>--latest\<close>.
\<close>

record args =
  arg_file :: "pystr option"
  arg_latest :: bool

text \<open>
  The parsed file, read through the three keys \<^verbatim>\<open>main\<close> asks for; \<open>None\<close> is a key the
  object does not have. The values have the types the annotations of \<^verbatim>\<open>main\<close> give them.
\<close>

record data =
  data_htmls :: "pystr list option"
  data_convos :: "dict list list option"
  data_score :: "json option"

text \<open>
  What the run reads from outside: the paths \<^verbatim>\<open>glob.glob\<close> finds for the fixed pattern
  under \<^verbatim>\<open>/tmp\<close>, and the result of opening a path and parsing it with \<^verbatim>\<open>json.load\<close>
  (an error when the file cannot be opened or is not JSON).
\<close>

record env =
  glob_tmp :: "pystr list"
  json_load :: "pystr \<Rightarrow> py_error + data"

record summary =
  summary_file :: pystr
  original_aggregate_score :: json
  total_examples :: nat
  kept_examples :: nat
  skipped_examples :: nat
  recomputed_accuracy_excluding_empty :: rat

text \<open>
  The fragments handed to the report renderer: the header block, with the values its
  text is formatted from (source path, total, kept, skipped, accuracy), and the kept
  per-example blocks.
\<close>

datatype fragment =
    HeaderBlock pystr nat nat nat rat
  | ExampleHtml pystr

text \<open>
  What the run emits, in order. The formatting of text (f-strings, \<^verbatim>\<open>json.dumps\<close>, the
  path of the report derived from the path of the input, the renderer of
  \<^verbatim>\<open>common\<close>) is not modelled: an output is recorded with the values it is made of.
  \<open>PrintWarning\<close> is the length-mismatch line with the two lengths, \<open>PrintSummary\<close> the
  summary object on standard output, \<open>WriteReport\<close> the HTML report written next to the
  given input path from the given fragments, \<open>PrintWritten\<close> the second object on
  standard output, announcing the report.
\<close>

datatype out_event =
    PrintWarning nat nat
  | PrintSummary summary
  | WriteReport pystr "fragment list"
  | PrintWritten pystr

text \<open>\<^verbatim>\<open>not result_file\<close> for the optional text of \<^verbatim>\<open>--file\<close>.\<close>

definition no_path :: "pystr option \<Rightarrow> bool" where
  "no_path p = (case p of None \<Rightarrow> True | Some s \<Rightarrow> s = [])"

text \<open>
  The first lines of \<^verbatim>\<open>main\<close>: the path of the input, or the \<^verbatim>\<open>SystemExit\<close> raised.
  \<^verbatim>\<open>sorted\<close> orders strings by code points; \<^verbatim>\<open>candidates[-1]\<close> is read where the list is
  known not to be empty.
\<close>

definition resolve_input :: "args \<Rightarrow> env \<Rightarrow> py_error + pystr" where
  "resolve_input a w =
     (case (if arg_latest a \<and> no_path (arg_file a)
            then (let candidates = sort (glob_tmp w) in
                  if candidates = []
                  then Inl (SystemExit (str ''No /tmp/browsecomp_*_allresults.json files found''))
                  else Inr (Some (last candidates)))
            else Inr (arg_file a)) of
        Inl e \<Rightarrow> Inl e
      | Inr result_file \<Rightarrow>
          (case result_file of
             None \<Rightarrow> Inl (SystemExit (str ''Must provide --file or --latest''))
           | Some p \<Rightarrow>
               if p = [] then Inl (SystemExit (str ''Must provide --file or --latest''))
               else Inr p))"

text \<open>
  \<^verbatim>\<open>data.get("htmls", [])\<close> and \<^verbatim>\<open>data.get("convos", [])\<close>; then the rest of \<^verbatim>\<open>main\<close>,
  from the parsed file on: the outputs emitted, and the exception that ended the run, if
  one did.
\<close>

definition get_htmls :: "data \<Rightarrow> pystr list" where
  "get_htmls d = (case data_htmls d of None \<Rightarrow> [] | Some h \<Rightarrow> h)"

definition get_convos :: "data \<Rightarrow> dict list list" where
  "get_convos d = (case data_convos d of None \<Rightarrow> [] | Some c \<Rightarrow> c)"

definition process :: "pystr \<Rightarrow> data \<Rightarrow> out_event list \<times> py_error option" where
  "process result_file d =
     (let htmls = get_htmls d;
          convos = get_convos d;
          total = length htmls;
          warned = (if length convos \<noteq> total
                    then [PrintWarning (length htmls) (length convos)] else [])
      in case aggregate htmls convos of
           Inl e \<Rightarrow> (warned, Some e)
         | Inr a \<Rightarrow>
             (let kept = length (kept_scores a) in
              case recomputed_acc (kept_scores a) of
                Inl e \<Rightarrow> (warned, Some e)
              | Inr acc \<Rightarrow>
                  (let original_score = (case data_score d of None \<Rightarrow> JNull | Some v \<Rightarrow> v);
                       summary = \<lparr>summary_file = result_file,
                                  original_aggregate_score = original_score,
                                  total_examples = total,
                                  kept_examples = kept,
                                  skipped_examples = skipped a,
                                  recomputed_accuracy_excluding_empty = acc\<rparr>;
                       header_block = HeaderBlock result_file total kept (skipped a) acc
                   in (warned @
                       [PrintSummary summary,
                        WriteReport result_file (header_block # map ExampleHtml (kept_htmls a)),
                        PrintWritten result_file],
                       None))))"

definition main :: "args \<Rightarrow> env \<Rightarrow> out_event list \<times> py_error option" where
  "main a w =
     (case resolve_input a w of
        Inl e \<Rightarrow> ([], Some e)
      | Inr result_file \<Rightarrow>
          (case json_load w result_file of
             Inl e \<Rightarrow> ([], Some e)
           | Inr d \<Rightarrow> process result_file d))"

text \<open>
  The exit status of the process: 0 when \<^verbatim>\<open>main\<close> returns, 1 when an exception ends
  it (a \<^verbatim>\<open>SystemExit\<close> carrying a message, or any uncaught exception).
\<close>

definition exit_status :: "py_error option \<Rightarrow> nat" where
  "exit_status r = (case r of None \<Rightarrow> 0 | Some e \<Rightarrow> 1)"

text \<open>The message a \<^verbatim>\<open>SystemExit\<close> prints on standard error before the process ends.\<close>

definition exit_message :: "py_error option \<Rightarrow> pystr option" where
  "exit_message r = (case r of Some (SystemExit m) \<Rightarrow> Some m | _ \<Rightarrow> None)"

section \<open>Notions used to state the properties\<close>

text \<open>
  The data model gives every message a \<^verbatim>\<open>content\<close> that is text. The detector reads the
  last message only and also accepts a message without the key, or with \<^verbatim>\<open>null\<close> under
  it: \<open>content_text\<close> is the text of a message (empty in those two cases), and a
  conversation is \<open>typed_convo\<close> when it is empty or the content of its last message is
  absent, \<^verbatim>\<open>null\<close> or a string.
\<close>

definition content_text :: "dict \<Rightarrow> pystr" where
  "content_text msg = (case map_of msg (str ''content'') of Some (JStr s) \<Rightarrow> s | _ \<Rightarrow> [])"

definition content_is_text :: "dict \<Rightarrow> bool" where
  "content_is_text msg =
     (case map_of msg (str ''content'') of
        None \<Rightarrow> True | Some JNull \<Rightarrow> True | Some (JStr s) \<Rightarrow> True | Some v \<Rightarrow> False)"

definition typed_convo :: "dict list \<Rightarrow> bool" where
  "typed_convo convo \<longleftrightarrow> convo = [] \<or> content_is_text (last convo)"

text \<open>
  The scores of the kept examples, in the words of the specification: an example is kept
  when its conversation is not an empty response and its HTML block has a score.
\<close>

definition score_if_kept :: "pystr \<times> dict list \<Rightarrow> rat option" where
  "score_if_kept ex =
     (if is_empty_assistant (snd ex) = Inr False then extract_score_from_html (fst ex) else None)"

definition scores_of_kept :: "pystr list \<Rightarrow> dict list list \<Rightarrow> rat list" where
  "scores_of_kept htmls convos = List.map_filter score_if_kept (zip htmls convos)"




text \<open>The list without its element at an index.\<close>

definition without :: "nat \<Rightarrow> 'a list \<Rightarrow> 'a list" where
  "without i xs = take i xs @ drop (Suc i) xs"

text \<open>
  The body of the loop on one example, and the loop over a list of examples: what
  \<open>run_loop\<close> computes over \<^verbatim>\<open>range(n)\<close>, told over the pairs \<^verbatim>\<open>(htmls[i], convos[i])\<close>.
\<close>

definition on_example :: "pystr \<times> dict list \<Rightarrow> acc \<Rightarrow> py_error + acc" where
  "on_example ex a =
     (case is_empty_assistant (snd ex) of
        Inl e \<Rightarrow> Inl e
      | Inr True \<Rightarrow> Inr (a\<lparr>skipped := skipped a + 1\<rparr>)
      | Inr False \<Rightarrow>
          (case extract_score_from_html (fst ex) of
             None \<Rightarrow> Inr (a\<lparr>skipped := skipped a + 1\<rparr>)
           | Some score \<Rightarrow>
               Inr (a\<lparr>kept_scores := kept_scores a @ [score],
                       kept_htmls := kept_htmls a @ [fst ex]\<rparr>)))"

fun over_examples :: "(pystr \<times> dict list) list \<Rightarrow> acc \<Rightarrow> py_error + acc" where
  "over_examples [] a = Inr a"
| "over_examples (ex # exs) a =
     (case on_example ex a of Inl e \<Rightarrow> Inl e | Inr a' \<Rightarrow> over_examples exs a')"

section \<open>Worked runs\<close>

text \<open>
  Concrete inputs on which the model is run below. \<open>assistant_says\<close> is a conversation
  of one assistant message. The first bundle is the end-to-end scenario of the
  specification: an empty conversation, then a block with \<^verbatim>\<open>Score: True\<close>, then a block
  with \<^verbatim>\<open>Score: 0.0\<close>. The second has five blocks and three conversations. The third
  has none of the three keys.
\<close>

definition assistant_says :: "string \<Rightarrow> dict list" where
  "assistant_says s = [[(str ''role'', JStr (str ''assistant'')), (str ''content'', JStr (str s))]]"

definition example_path :: pystr where
  "example_path = str ''/tmp/run_allresults.json''"

definition scenario_htmls :: "pystr list" where
  "scenario_htmls = [str ''<p>Score: True</p>'', str ''<p>Score: True</p>'', str ''<p>Score: 0.0</p>'']"

definition scenario_convos :: "dict list list" where
  "scenario_convos = [[], assistant_says ''Paris'', assistant_says ''42'']"

definition scenario_data :: data where
  "scenario_data =
     \<lparr>data_htmls = Some scenario_htmls, data_convos = Some scenario_convos,
      data_score = Some (JNum (2 / 3))\<rparr>"

definition mismatch_htmls :: "pystr list" where
  "mismatch_htmls =
     [str ''Score: True'', str ''Score: False'', str ''no marker here'',
      str ''Score: True'', str ''Score: True'']"

definition mismatch_convos :: "dict list list" where
  "mismatch_convos = [assistant_says ''a'', assistant_says ''b'', assistant_says ''c'']"

definition mismatch_data :: data where
  "mismatch_data =
     \<lparr>data_htmls = Some mismatch_htmls, data_convos = Some mismatch_convos, data_score = None\<rparr>"

definition keyless_data :: data where
  "keyless_data = \<lparr>data_htmls = None, data_convos = None, data_score = None\<rparr>"

text \<open>
  A file system in which nothing matches the pattern under \<^verbatim>\<open>/tmp\<close> and the one file
  \<open>example_path\<close> holds the given bundle; four ways to call the program.
\<close>

definition env_of :: "data \<Rightarrow> env" where
  "env_of d =
     \<lparr>glob_tmp = [], json_load = (\<lambda>p. if p = example_path then Inr d else Inl OSError)\<rparr>"

definition file_args :: args where
  "file_args = \<lparr>arg_file = Some example_path, arg_latest = False\<rparr>"

definition no_args :: args where
  "no_args = \<lparr>arg_file = None, arg_latest = False\<rparr>"

definition latest_args :: args where
  "latest_args = \<lparr>arg_file = None, arg_latest = True\<rparr>"

definition file_and_latest_args :: args where
  "file_and_latest_args = \<lparr>arg_file = Some example_path, arg_latest = True\<rparr>"

section \<open>Running the model on concrete inputs\<close>

text \<open>The definitions unfolded to run the model on a concrete input.\<close>

lemmas eval_defs = aggregate_def loop_body_def py_index_def is_empty_assistant_def
  extract_score_from_html_def match_at_def match_token_def py_float_def nat_of_digits_def
  isdigit_def isspace_def strip_def dict_get_def py_or_def str_def

lemma example_path_nonempty: "example_path \<noteq> []"
  by (simp add: example_path_def str_def)

lemma resolve_file: "resolve_input file_args (env_of d) = Inr example_path"
  by (simp add: resolve_input_def file_args_def env_of_def no_path_def example_path_nonempty)

lemma load_example: "json_load (env_of d) example_path = Inr d"
  by (simp add: env_of_def)

section \<open>Whitespace and the empty-response detector\<close>

text \<open>
  What \<open>strip\<close> computes: the middle part of a string between a leading and a trailing
  run of whitespace, itself neither starting nor ending with whitespace.
\<close>

lemma strip_Nil_iff: "strip s = [] \<longleftrightarrow> (\<forall>c \<in> set s. isspace c)"
proof
  assume "strip s = []"
  then have "dropWhile isspace (rev (dropWhile isspace s)) = []" by (simp add: strip_def)
  then have "\<forall>c \<in> set (dropWhile isspace s). isspace c"
    by simp
  then have "dropWhile isspace s = []"
    using hd_dropWhile[of isspace s] by (cases "dropWhile isspace s") auto
  then show "\<forall>c \<in> set s. isspace c" by simp
next
  assume "\<forall>c \<in> set s. isspace c"
  then show "strip s = []" by (auto simp: strip_def dest: set_dropWhileD)
qed

lemma strip_decomp:
  "\<exists>l r. s = l @ strip s @ r \<and> (\<forall>c \<in> set l. isspace c) \<and> (\<forall>c \<in> set r. isspace c)"
proof -
  let ?m = "dropWhile isspace s"
  let ?r = "rev (takeWhile isspace (rev ?m))"
  have "rev ?m = takeWhile isspace (rev ?m) @ dropWhile isspace (rev ?m)" by simp
  then have "?m = strip s @ ?r"
    by (metis rev_append rev_rev_ident strip_def)
  then have "s = takeWhile isspace s @ strip s @ ?r"
    by (metis takeWhile_dropWhile_id)
  moreover have "\<forall>c \<in> set (takeWhile isspace s). isspace c"
    by (auto dest: set_takeWhileD)
  moreover have "\<forall>c \<in> set ?r. isspace c"
    by (auto dest: set_takeWhileD)
  ultimately show ?thesis by blast
qed

lemma strip_ends:
  assumes "strip s \<noteq> []"
  shows "\<not> isspace (hd (strip s)) \<and> \<not> isspace (last (strip s))"
proof -
  let ?m = "dropWhile isspace s"
  let ?d = "dropWhile isspace (rev ?m)"
  from assms have d: "?d \<noteq> []" by (simp add: strip_def)
  then have l: "\<not> isspace (hd ?d)" by (rule hd_dropWhile)
  have "last (strip s) = hd ?d" using d by (simp add: strip_def last_rev)
  with l have 1: "\<not> isspace (last (strip s))" by simp
  from d have m: "?m \<noteq> []" by (auto dest: set_dropWhileD)
  then have hm: "\<not> isspace (hd ?m)" by (rule hd_dropWhile)
  obtain r where "?m = strip s @ r"
    by (metis rev_append rev_rev_ident strip_def takeWhile_dropWhile_id)
  with assms have "hd (strip s) = hd ?m" by (metis hd_append2)
  with hm 1 show ?thesis by simp
qed

text \<open>
  Claim C4. On a conversation of the data model (empty, or with a last message whose
  content is absent, \<^verbatim>\<open>null\<close> or a string) the detector answers, and it answers "empty"
  exactly when the conversation has no message, or the content of the last message
  stripped of surrounding whitespace is empty, or that stripped content starts with
  \<^verbatim>\<open>No response (bad request)\<close>; in every other case it answers "not empty".
\<close>

theorem is_empty_assistant_typed:
  "typed_convo convo \<Longrightarrow>
   is_empty_assistant convo =
     Inr (convo = [] \<or> strip (content_text (last convo)) = [] \<or>
          prefix (str ''No response (bad request)'') (strip (content_text (last convo))))"
  by (auto simp: typed_convo_def is_empty_assistant_def content_is_text_def content_text_def
        dict_get_def py_or_def strip_def Let_def
      split: option.splits json.splits)

theorem is_empty_assistant_typed_witness:
  "typed_convo (assistant_says ''   '') \<and>
   is_empty_assistant (assistant_says ''   '') = Inr True \<and>
   typed_convo (assistant_says '' No response (bad request): out of credits'') \<and>
   is_empty_assistant (assistant_says '' No response (bad request): out of credits'') = Inr True \<and>
   typed_convo (assistant_says ''Paris'') \<and>
   is_empty_assistant (assistant_says ''Paris'') = Inr False \<and>
   typed_convo [] \<and> is_empty_assistant [] = Inr True"
proof -
  have t: "typed_convo (assistant_says s)" for s
    by (simp add: typed_convo_def content_is_text_def assistant_says_def str_def)
  have c: "content_text (last (assistant_says s)) = str s" for s
    by (simp add: content_text_def assistant_says_def str_def)
  have e: "typed_convo []" by (simp add: typed_convo_def)
  have n: "assistant_says s \<noteq> []" for s by (simp add: assistant_says_def)
  from is_empty_assistant_typed[OF t, of "''   ''"]
    is_empty_assistant_typed[OF t, of "'' No response (bad request): out of credits''"]
    is_empty_assistant_typed[OF t, of "''Paris''"]
    is_empty_assistant_typed[OF e] t e
  show ?thesis
    by (simp add: c n) (simp add: str_def strip_def isspace_def)
qed

section \<open>The score extractor\<close>


text \<open>
  A captured token is \<^verbatim>\<open>True\<close>, \<^verbatim>\<open>False\<close> or a decimal that \<^verbatim>\<open>float\<close> parses: the
  \<^verbatim>\<open>except\<close> branch of the extractor is never taken, and there is no score exactly
  when the pattern has no match.
\<close>

lemma takeWhile_all:
  "list_all P xs \<Longrightarrow>
   takeWhile P (xs @ y # ys) = (if P y then xs @ takeWhile P (y # ys) else xs)"
  by (induction xs) auto

lemma match_token_parses:
  assumes "match_token r = Some t"
  shows "t = str ''True'' \<or> t = str ''False'' \<or> (\<exists>v. py_float t = Inr v)"
proof (cases "prefix (str ''True'') r \<or> prefix (str ''False'') r")
  case True
  with assms show ?thesis by (auto simp: match_token_def split: if_splits)
next
  case False
  let ?ip = "takeWhile isdigit r"
  from False assms have ip: "?ip \<noteq> []"
    by (auto simp: match_token_def Let_def split: if_splits)
  have ipd: "list_all isdigit ?ip" by (auto simp: list_all_iff dest: set_takeWhileD)
  have tw: "takeWhile isdigit ?ip = ?ip" using ipd by (simp add: list_all_iff)
  show ?thesis
  proof (cases "drop (length ?ip) r")
    case Nil
    with False assms ip have "t = ?ip" by (auto simp: match_token_def Let_def)
    then show ?thesis using ip tw by (simp add: py_float_def Let_def)
  next
    case (Cons c r')
    let ?fp = "takeWhile isdigit r'"
    show ?thesis
    proof (cases "c = 46 \<and> ?fp \<noteq> []")
      case True
      with False assms ip Cons have t: "t = ?ip @ 46 # ?fp"
        by (auto simp: match_token_def Let_def)
      have fpd: "list_all isdigit ?fp" by (auto simp: list_all_iff dest: set_takeWhileD)
      have "takeWhile isdigit t = ?ip"
        unfolding t using takeWhile_all[OF ipd, of 46 ?fp] by (simp add: isdigit_def)
      then show ?thesis using ip True fpd
        by (simp add: py_float_def Let_def t)
    next
      case F2: False
      with False assms ip Cons have "t = ?ip" by (auto simp: match_token_def Let_def)
      then show ?thesis using ip tw by (simp add: py_float_def Let_def)
    qed
  qed
qed

lemma re_search_parses:
  "re_search s = Some t \<Longrightarrow> t = str ''True'' \<or> t = str ''False'' \<or> (\<exists>v. py_float t = Inr v)"
proof (induction s)
  case Nil
  then show ?case by (simp add: match_at_def str_def)
next
  case (Cons c cs)
  show ?case
  proof (cases "match_at (c # cs)")
    case None
    with Cons show ?thesis by simp
  next
    case (Some u)
    with Cons.prems have "u = t" by simp
    with Some have "match_token (dropWhile isspace (drop 6 (c # cs))) = Some t"
      by (simp add: match_at_def split: if_splits)
    then show ?thesis by (rule match_token_parses)
  qed
qed

lemma no_score_iff_no_match:
  "extract_score_from_html html = None \<longleftrightarrow> re_search html = None"
  using re_search_parses[of html]
  by (auto simp: extract_score_from_html_def split: option.splits sum.splits)





























text \<open>
  Why the marker has to be the first one and the token must not be extended: the search
  reports the leftmost match, and the digit runs are greedy.
\<close>

lemma leftmost_marker_wins:
  "extract_score_from_html (str ''Score: False, not Score: True'') = Some 0 \<and>
   extract_score_from_html (str ''Score: 0.751'') = Some (751 / 1000)"
  by (simp add: eval_defs)

section \<open>The loop, told over the examples\<close>

lemma loop_body_on_example:
  "i < length htmls \<Longrightarrow> i < length convos \<Longrightarrow>
   loop_body htmls convos i a = on_example (htmls ! i, convos ! i) a"
  by (simp add: loop_body_def on_example_def py_index_def
      split: sum.splits bool.splits option.splits)

lemma run_loop_upt:
  "n = min (length htmls) (length convos) \<Longrightarrow> k \<le> n \<Longrightarrow>
   run_loop htmls convos [k ..< n] a = over_examples (drop k (zip htmls convos)) a"
proof (induction "n - k" arbitrary: k a)
  case 0
  then show ?case by simp
next
  case (Suc m)
  from Suc.hyps(2) have k: "k < n" by linarith
  from k Suc.prems(1) have kh: "k < length htmls" and kc: "k < length convos" by simp_all
  then have d: "drop k (zip htmls convos) = (htmls ! k, convos ! k) # drop (Suc k) (zip htmls convos)"
    by (simp flip: Cons_nth_drop_Suc)
  have m: "m = n - Suc k" using Suc.hyps(2) by simp
  have IH: "\<And>b. run_loop htmls convos [Suc k ..< n] b = over_examples (drop (Suc k) (zip htmls convos)) b"
    using Suc.hyps(1)[OF m Suc.prems(1)] k by simp
  show ?case
    using k by (simp add: upt_conv_Cons d loop_body_on_example[OF kh kc] IH split: sum.splits)
qed

lemma aggregate_over_examples:
  "aggregate htmls convos =
   over_examples (zip htmls convos) \<lparr>kept_scores = [], kept_htmls = [], skipped = 0\<rparr>"
  using run_loop_upt[of "min (length htmls) (length convos)" htmls convos 0]
  by (simp add: aggregate_def)

lemma over_examples_append:
  "over_examples (xs @ ys) a =
   (case over_examples xs a of Inl e \<Rightarrow> Inl e | Inr a' \<Rightarrow> over_examples ys a')"
  by (induction xs arbitrary: a) (simp_all split: sum.splits)

lemma on_example_count:
  "on_example ex a = Inr a' \<Longrightarrow>
   length (kept_scores a') + skipped a' = Suc (length (kept_scores a) + skipped a)"
  by (auto simp: on_example_def split: sum.splits bool.splits option.splits)

lemma over_examples_count:
  "over_examples exs a = Inr a' \<Longrightarrow>
   length (kept_scores a') + skipped a' = length (kept_scores a) + skipped a + length exs"
proof (induction exs arbitrary: a)
  case Nil
  then show ?case by simp
next
  case (Cons ex exs)
  then obtain b where b: "on_example ex a = Inr b" and r: "over_examples exs b = Inr a'"
    by (auto split: sum.splits)
  from Cons.IH[OF r] on_example_count[OF b] show ?case by simp
qed

lemma aggregate_count:
  "aggregate htmls convos = Inr a \<Longrightarrow>
   length (kept_scores a) + skipped a = min (length htmls) (length convos)"
  using over_examples_count[of "zip htmls convos" _ a]
  by (simp add: aggregate_over_examples)

lemma on_example_error:
  "on_example ex a = Inl e \<Longrightarrow> e = AttributeError \<and> \<not> typed_convo (snd ex)"
  by (auto simp: on_example_def is_empty_assistant_def typed_convo_def content_is_text_def
        dict_get_def py_or_def Let_def
      split: sum.splits bool.splits option.splits if_splits json.splits elim: json_strip.elims)

lemma over_examples_error:
  "over_examples exs a = Inl e \<Longrightarrow> e = AttributeError \<and> \<not> list_all typed_convo (map snd exs)"
proof (induction exs arbitrary: a)
  case Nil
  then show ?case by simp
next
  case (Cons ex exs)
  show ?case
  proof (cases "on_example ex a")
    case (Inl e')
    with Cons.prems have "e' = e" by simp
    with on_example_error[OF Inl] show ?thesis by simp
  next
    case (Inr b)
    with Cons.prems have "over_examples exs b = Inl e" by simp
    from Cons.IH[OF this] show ?thesis by simp
  qed
qed

lemma map_snd_zip_take:
  "map snd (zip xs ys) = take (min (length xs) (length ys)) ys"
  by (simp add: map_snd_zip_take min.commute)

lemma over_examples_total:
  "list_all typed_convo (map snd exs) \<Longrightarrow> \<exists>a'. over_examples exs a = Inr a'"
  using over_examples_error[of exs a] by (cases "over_examples exs a") auto

lemma aggregate_total:
  "list_all typed_convo (take (min (length htmls) (length convos)) convos) \<Longrightarrow>
   \<exists>a. aggregate htmls convos = Inr a"
  using over_examples_total[of "zip htmls convos"]
  by (simp add: aggregate_over_examples map_snd_zip_take)

lemma aggregate_take:
  "aggregate (take (min (length htmls) (length convos)) htmls)
             (take (min (length htmls) (length convos)) convos) = aggregate htmls convos"
  by (simp add: aggregate_over_examples flip: take_zip)

lemma scenario_aggregate:
  "aggregate scenario_htmls scenario_convos =
     Inr \<lparr>kept_scores = [1, 0],
          kept_htmls = [str ''<p>Score: True</p>'', str ''<p>Score: 0.0</p>''],
          skipped = 1\<rparr>"
  by (simp add: scenario_htmls_def scenario_convos_def assistant_says_def eval_defs upt_rec)

lemma mismatch_aggregate:
  "aggregate mismatch_htmls mismatch_convos =
     Inr \<lparr>kept_scores = [1, 0],
          kept_htmls = [str ''Score: True'', str ''Score: False''],
          skipped = 1\<rparr>"
  by (simp add: mismatch_htmls_def mismatch_convos_def assistant_says_def eval_defs upt_rec)

text \<open>
  Claim C1. After the aggregation loop, the number of kept examples plus the number of
  skipped examples is \<open>min (length htmls) (length convos)\<close>: every index below the
  minimum is counted once. The loop ends normally unless an \<^verbatim>\<open>AttributeError\<close> ends it,
  which takes a conversation among the processed ones whose last message has a content
  that is neither absent, \<^verbatim>\<open>null\<close> nor a string.
\<close>

theorem kept_plus_skipped_is_min:
  "case aggregate htmls convos of
     Inr a \<Rightarrow> length (kept_scores a) + skipped a = min (length htmls) (length convos)
   | Inl e \<Rightarrow> e = AttributeError \<and>
       \<not> list_all typed_convo (take (min (length htmls) (length convos)) convos)"
proof (cases "aggregate htmls convos")
  case (Inl e)
  then have "over_examples (zip htmls convos) \<lparr>kept_scores = [], kept_htmls = [], skipped = 0\<rparr> = Inl e"
    by (simp add: aggregate_over_examples)
  from over_examples_error[OF this] Inl show ?thesis
    by (simp add: map_snd_zip_take)
next
  case (Inr a)
  then have "over_examples (zip htmls convos) \<lparr>kept_scores = [], kept_htmls = [], skipped = 0\<rparr> = Inr a"
    by (simp add: aggregate_over_examples)
  from over_examples_count[OF this] Inr show ?thesis by simp
qed

theorem kept_plus_skipped_is_min_witness:
  "aggregate scenario_htmls scenario_convos =
     Inr \<lparr>kept_scores = [1, 0],
          kept_htmls = [str ''<p>Score: True</p>'', str ''<p>Score: 0.0</p>''],
          skipped = 1\<rparr> \<and>
   length [1, 0 :: rat] + 1 = min (length scenario_htmls) (length scenario_convos)"
  using kept_plus_skipped_is_min[of scenario_htmls scenario_convos]
  by (simp add: scenario_aggregate)

lemma on_example_flagged:
  "is_empty_assistant convo = Inr True \<Longrightarrow>
   on_example (html, convo) a = Inr (a\<lparr>skipped := skipped a + 1\<rparr>)"
  by (simp add: on_example_def)

lemma on_example_skipped_shift:
  "on_example ex (a\<lparr>skipped := skipped a + k\<rparr>) =
   (case on_example ex a of Inl e \<Rightarrow> Inl e | Inr b \<Rightarrow> Inr (b\<lparr>skipped := skipped b + k\<rparr>))"
  by (simp add: on_example_def split: sum.splits bool.splits option.splits)

lemma over_examples_skipped_shift:
  "over_examples exs (a\<lparr>skipped := skipped a + k\<rparr>) =
   (case over_examples exs a of Inl e \<Rightarrow> Inl e | Inr b \<Rightarrow> Inr (b\<lparr>skipped := skipped b + k\<rparr>))"
proof (induction exs arbitrary: a)
  case Nil
  then show ?case by simp
next
  case (Cons ex exs)
  show ?case
  proof (cases "on_example ex a")
    case (Inl e)
    then show ?thesis by (simp add: on_example_skipped_shift)
  next
    case (Inr b)
    then show ?thesis by (simp add: on_example_skipped_shift Cons.IH)
  qed
qed

lemma zip_without:
  "i < length xs \<Longrightarrow> i < length ys \<Longrightarrow>
   zip (without i xs) (without i ys) = without i (zip xs ys)"
  by (simp add: without_def take_zip drop_zip)

lemma zip_split_at:
  "i < length xs \<Longrightarrow> i < length ys \<Longrightarrow>
   zip xs ys = take i (zip xs ys) @ (xs ! i, ys ! i) # drop (Suc i) (zip xs ys)"
  using id_take_nth_drop[of i "zip xs ys"] by simp

text \<open>
  Claim C6. An example whose conversation the detector flags is counted as skipped and is
  never kept, whatever its HTML block holds: replacing the block by any other leaves the
  result of the loop unchanged, and the loop over the input without that example gives
  the same kept scores and blocks and one skipped example fewer.
\<close>

theorem flagged_example_is_skipped:
  assumes "i < min (length htmls) (length convos)"
    and "is_empty_assistant (convos ! i) = Inr True"
    and "aggregate htmls convos = Inr a"
  shows "aggregate (htmls[i := html]) convos = Inr a \<and>
         0 < skipped a \<and>
         aggregate (without i htmls) (without i convos) = Inr (a\<lparr>skipped := skipped a - 1\<rparr>)"
proof -
  let ?a0 = "\<lparr>kept_scores = [], kept_htmls = [], skipped = 0\<rparr>"
  let ?xs = "take i (zip htmls convos)" and ?ys = "drop (Suc i) (zip htmls convos)"
  from assms(1) have ih: "i < length htmls" and ic: "i < length convos" by simp_all
  have whole: "over_examples (?xs @ (htmls ! i, convos ! i) # ?ys) ?a0 = Inr a"
    using assms(3) zip_split_at[OF ih ic] by (simp add: aggregate_over_examples)
  then obtain a1 where a1: "over_examples ?xs ?a0 = Inr a1"
    by (auto simp: over_examples_append split: sum.splits)
  from whole a1 have rest: "over_examples ?ys (a1\<lparr>skipped := skipped a1 + 1\<rparr>) = Inr a"
    by (simp add: over_examples_append on_example_flagged[OF assms(2)])
  have "over_examples ?ys (a1\<lparr>skipped := skipped a1 + 1\<rparr>) =
      (case over_examples ?ys a1 of Inl e \<Rightarrow> Inl e | Inr b \<Rightarrow> Inr (b\<lparr>skipped := skipped b + 1\<rparr>))"
    by (rule over_examples_skipped_shift)
  with rest obtain b where b: "over_examples ?ys a1 = Inr b" and ab: "a = b\<lparr>skipped := skipped b + 1\<rparr>"
    by (cases "over_examples ?ys a1") auto
  have upd: "zip (htmls[i := html]) convos = ?xs @ (html, convos ! i) # ?ys"
  proof -
    have "zip (htmls[i := html]) (convos[i := convos ! i]) = (zip htmls convos)[i := (html, convos ! i)]"
      by (rule zip_update)
    then show ?thesis using ih ic by (simp add: upd_conv_take_nth_drop)
  qed
  have 1: "aggregate (htmls[i := html]) convos = Inr a"
    using a1 rest by (simp add: aggregate_over_examples upd over_examples_append
        on_example_flagged[OF assms(2)])
  have 2: "0 < skipped a" using ab by simp
  have zw: "zip (without i htmls) (without i convos) = ?xs @ ?ys"
    unfolding zip_without[OF ih ic] by (simp add: without_def)
  have "aggregate (without i htmls) (without i convos) = Inr b"
    using a1 b by (simp add: aggregate_over_examples zw over_examples_append)
  moreover have "b = a\<lparr>skipped := skipped a - 1\<rparr>" using ab by simp
  ultimately show ?thesis using 1 2 by simp
qed

theorem flagged_example_is_skipped_witness:
  "(0::nat) < min (length scenario_htmls) (length scenario_convos) \<and>
   is_empty_assistant (scenario_convos ! 0) = Inr True \<and>
   aggregate scenario_htmls scenario_convos =
     Inr \<lparr>kept_scores = [1, 0],
          kept_htmls = [str ''<p>Score: True</p>'', str ''<p>Score: 0.0</p>''],
          skipped = 1\<rparr> \<and>
   aggregate (scenario_htmls[0 := str ''no score here'']) scenario_convos =
     Inr \<lparr>kept_scores = [1, 0],
          kept_htmls = [str ''<p>Score: True</p>'', str ''<p>Score: 0.0</p>''],
          skipped = 1\<rparr> \<and>
   aggregate (without 0 scenario_htmls) (without 0 scenario_convos) =
     Inr \<lparr>kept_scores = [1, 0],
          kept_htmls = [str ''<p>Score: True</p>'', str ''<p>Score: 0.0</p>''],
          skipped = 0\<rparr>"
proof -
  have i: "0 < min (length scenario_htmls) (length scenario_convos)"
    by (simp add: scenario_htmls_def scenario_convos_def)
  have f: "is_empty_assistant (scenario_convos ! 0) = Inr True"
    by (simp add: scenario_convos_def is_empty_assistant_def)
  from flagged_example_is_skipped[OF i f scenario_aggregate, of "str ''no score here''"] i f
  show ?thesis by (simp add: scenario_aggregate)
qed

lemma on_example_kept_scores:
  "on_example ex a = Inr a' \<Longrightarrow>
   kept_scores a' = kept_scores a @ (case score_if_kept ex of None \<Rightarrow> [] | Some v \<Rightarrow> [v])"
  by (auto simp: on_example_def score_if_kept_def split: sum.splits bool.splits option.splits)

lemma over_examples_kept_scores:
  "over_examples exs a = Inr a' \<Longrightarrow>
   kept_scores a' = kept_scores a @ List.map_filter score_if_kept exs"
proof (induction exs arbitrary: a)
  case Nil
  then show ?case by simp
next
  case (Cons ex exs)
  then obtain b where b: "on_example ex a = Inr b" and r: "over_examples exs b = Inr a'"
    by (auto split: sum.splits)
  from Cons.IH[OF r] on_example_kept_scores[OF b] show ?case
    by (simp split: option.splits)
qed

lemma aggregate_kept_scores:
  "aggregate htmls convos = Inr a \<Longrightarrow> kept_scores a = scores_of_kept htmls convos"
  using over_examples_kept_scores[of "zip htmls convos" _ a]
  by (simp add: aggregate_over_examples scores_of_kept_def)

section \<open>The run\<close>

lemma main_process:
  "resolve_input a w = Inr p \<Longrightarrow> json_load w p = Inr d \<Longrightarrow> main a w = process p d"
  by (simp add: main_def)

lemma recomputed_acc_eq:
  "recomputed_acc ks = Inr (if ks = [] then 0 else sum_list ks / of_nat (length ks))"
  by (simp add: recomputed_acc_def mean_def)

lemma process_eq:
  "process p d =
     (case aggregate (get_htmls d) (get_convos d) of
        Inl e \<Rightarrow>
          (if length (get_convos d) \<noteq> length (get_htmls d)
           then [PrintWarning (length (get_htmls d)) (length (get_convos d))] else [], Some e)
      | Inr a \<Rightarrow>
          ((if length (get_convos d) \<noteq> length (get_htmls d)
            then [PrintWarning (length (get_htmls d)) (length (get_convos d))] else []) @
           [PrintSummary
              \<lparr>summary_file = p,
               original_aggregate_score = (case data_score d of None \<Rightarrow> JNull | Some v \<Rightarrow> v),
               total_examples = length (get_htmls d),
               kept_examples = length (kept_scores a),
               skipped_examples = skipped a,
               recomputed_accuracy_excluding_empty =
                 (if kept_scores a = [] then 0
                  else sum_list (kept_scores a) / of_nat (length (kept_scores a)))\<rparr>,
            WriteReport p
              (HeaderBlock p (length (get_htmls d)) (length (kept_scores a)) (skipped a)
                 (if kept_scores a = [] then 0
                  else sum_list (kept_scores a) / of_nat (length (kept_scores a)))
               # map ExampleHtml (kept_htmls a)),
            PrintWritten p],
           None))"
  by (simp add: process_def recomputed_acc_eq Let_def split: sum.splits)

lemma summary_emitted:
  assumes "PrintSummary s \<in> set (fst (process p d))"
  shows "\<exists>a. aggregate (get_htmls d) (get_convos d) = Inr a \<and>
           total_examples s = length (get_htmls d) \<and>
           kept_examples s = length (kept_scores a) \<and>
           skipped_examples s = skipped a \<and>
           recomputed_accuracy_excluding_empty s =
             (if kept_scores a = [] then 0
              else sum_list (kept_scores a) / of_nat (length (kept_scores a)))"
proof (cases "aggregate (get_htmls d) (get_convos d)")
  case (Inl e)
  with assms show ?thesis by (simp add: process_eq split: if_splits)
next
  case (Inr a)
  with assms show ?thesis by (auto simp: process_eq split: if_splits)
qed

lemma process_no_statistics_error: "snd (process p d) \<noteq> Some StatisticsError"
proof (cases "aggregate (get_htmls d) (get_convos d)")
  case (Inl e)
  then have "over_examples (zip (get_htmls d) (get_convos d))
      \<lparr>kept_scores = [], kept_htmls = [], skipped = 0\<rparr> = Inl e"
    by (simp add: aggregate_over_examples)
  from over_examples_error[OF this] Inl show ?thesis by (simp add: process_eq)
next
  case (Inr a)
  then show ?thesis by (simp add: process_eq)
qed

lemma scenario_run:
  "main file_args (env_of scenario_data) =
     ([PrintSummary
         \<lparr>summary_file = example_path, original_aggregate_score = JNum (2 / 3),
          total_examples = 3, kept_examples = 2, skipped_examples = 1,
          recomputed_accuracy_excluding_empty = 1 / 2\<rparr>,
       WriteReport example_path
         [HeaderBlock example_path 3 2 1 (1 / 2),
          ExampleHtml (str ''<p>Score: True</p>''), ExampleHtml (str ''<p>Score: 0.0</p>'')],
       PrintWritten example_path],
      None)"
proof -
  have h: "get_htmls scenario_data = scenario_htmls" and c: "get_convos scenario_data = scenario_convos"
    by (simp_all add: get_htmls_def get_convos_def scenario_data_def)
  have l: "length scenario_htmls = 3" "length scenario_convos = 3"
    by (simp_all add: scenario_htmls_def scenario_convos_def)
  show ?thesis
    by (simp add: main_process[OF resolve_file load_example] process_eq h c l scenario_aggregate)
      (simp add: scenario_data_def)
qed

lemma mismatch_run:
  "main file_args (env_of mismatch_data) =
     ([PrintWarning 5 3,
       PrintSummary
         \<lparr>summary_file = example_path, original_aggregate_score = JNull,
          total_examples = 5, kept_examples = 2, skipped_examples = 1,
          recomputed_accuracy_excluding_empty = 1 / 2\<rparr>,
       WriteReport example_path
         [HeaderBlock example_path 5 2 1 (1 / 2),
          ExampleHtml (str ''Score: True''), ExampleHtml (str ''Score: False'')],
       PrintWritten example_path],
      None)"
proof -
  have h: "get_htmls mismatch_data = mismatch_htmls" and c: "get_convos mismatch_data = mismatch_convos"
    by (simp_all add: get_htmls_def get_convos_def mismatch_data_def)
  have l: "length mismatch_htmls = 5" "length mismatch_convos = 3"
    by (simp_all add: mismatch_htmls_def mismatch_convos_def)
  show ?thesis
    by (simp add: main_process[OF resolve_file load_example] process_eq h c l mismatch_aggregate)
      (simp add: mismatch_data_def)
qed

lemma keyless_process:
  "process example_path keyless_data =
     ([PrintSummary
         \<lparr>summary_file = example_path, original_aggregate_score = JNull,
          total_examples = 0, kept_examples = 0, skipped_examples = 0,
          recomputed_accuracy_excluding_empty = 0\<rparr>,
       WriteReport example_path [HeaderBlock example_path 0 0 0 0],
       PrintWritten example_path],
      None)"
  by (simp add: process_eq get_htmls_def get_convos_def keyless_data_def aggregate_def)

text \<open>
  Claim C2. The reported \<^verbatim>\<open>recomputed_accuracy_excluding_empty\<close> is the arithmetic mean of
  exactly the scores of the kept examples, and 0 when none is kept; the run never fails
  for want of kept scores (\<^verbatim>\<open>statistics.mean\<close> is not called on an empty list).
\<close>

theorem recomputed_accuracy_is_mean_of_kept:
  assumes "resolve_input a w = Inr p" and "json_load w p = Inr d"
    and "ks = scores_of_kept (get_htmls d) (get_convos d)"
  shows "snd (main a w) \<noteq> Some StatisticsError \<and>
         (\<forall>s. PrintSummary s \<in> set (fst (main a w)) \<longrightarrow>
            kept_examples s = length ks \<and>
            recomputed_accuracy_excluding_empty s =
              (if ks = [] then 0 else sum_list ks / of_nat (length ks)))"
proof (intro conjI allI impI)
  show "snd (main a w) \<noteq> Some StatisticsError"
    using assms(1,2) by (simp add: main_process process_no_statistics_error)
next
  fix s assume "PrintSummary s \<in> set (fst (main a w))"
  with assms have s: "PrintSummary s \<in> set (fst (process p d))"
    by (simp add: main_process)
  from summary_emitted[OF s] obtain acc where
    agg: "aggregate (get_htmls d) (get_convos d) = Inr acc" and
    k: "kept_examples s = length (kept_scores acc)" and
    r: "recomputed_accuracy_excluding_empty s =
          (if kept_scores acc = [] then 0
           else sum_list (kept_scores acc) / of_nat (length (kept_scores acc)))"
    by blast
  from k show "kept_examples s = length ks"
    by (simp add: aggregate_kept_scores[OF agg] assms(3))
  from r show "recomputed_accuracy_excluding_empty s =
      (if ks = [] then 0 else sum_list ks / of_nat (length ks))"
    by (simp add: aggregate_kept_scores[OF agg] assms(3))
qed

theorem recomputed_accuracy_is_mean_of_kept_witness:
  "resolve_input file_args (env_of scenario_data) = Inr example_path \<and>
   json_load (env_of scenario_data) example_path = Inr scenario_data \<and>
   scores_of_kept (get_htmls scenario_data) (get_convos scenario_data) = [1, 0] \<and>
   snd (main file_args (env_of scenario_data)) \<noteq> Some StatisticsError \<and>
   fst (main file_args (env_of scenario_data)) ! 0 =
     PrintSummary
       \<lparr>summary_file = example_path, original_aggregate_score = JNum (2 / 3),
        total_examples = 3, kept_examples = length [1, 0 :: rat], skipped_examples = 1,
        recomputed_accuracy_excluding_empty = sum_list [1, 0] / of_nat (length [1, 0 :: rat])\<rparr> \<and>
   scores_of_kept (get_htmls keyless_data) (get_convos keyless_data) = [] \<and>
   fst (main file_args (env_of keyless_data)) ! 0 =
     PrintSummary
       \<lparr>summary_file = example_path, original_aggregate_score = JNull,
        total_examples = 0, kept_examples = 0, skipped_examples = 0,
        recomputed_accuracy_excluding_empty = 0\<rparr>"
proof -
  have k: "[1, 0] = scores_of_kept (get_htmls scenario_data) (get_convos scenario_data)"
    using aggregate_kept_scores[OF scenario_aggregate]
    by (simp add: get_htmls_def get_convos_def scenario_data_def)
  have e: "[] = scores_of_kept (get_htmls keyless_data) (get_convos keyless_data)"
    by (simp add: scores_of_kept_def get_htmls_def get_convos_def keyless_data_def)
  note 1 = recomputed_accuracy_is_mean_of_kept[OF resolve_file load_example k]
  note 2 = recomputed_accuracy_is_mean_of_kept[OF resolve_file load_example e]
  have r: "main file_args (env_of keyless_data) = process example_path keyless_data"
    using resolve_file load_example by (rule main_process)
  from 1 2 show ?thesis
    by (simp add: resolve_file load_example scenario_run r keyless_process
        k[symmetric] e[symmetric])
qed

text \<open>
  Claim C10. The \<^verbatim>\<open>total_examples\<close> of the summary is the length of \<^verbatim>\<open>htmls\<close> alone;
  when \<^verbatim>\<open>convos\<close> is strictly shorter, it strictly exceeds kept plus skipped.
\<close>

theorem total_examples_is_len_htmls:
  assumes "resolve_input a w = Inr p" and "json_load w p = Inr d"
    and "PrintSummary s \<in> set (fst (main a w))"
  shows "total_examples s = length (get_htmls d) \<and>
         (length (get_convos d) < length (get_htmls d) \<longrightarrow>
            kept_examples s + skipped_examples s < total_examples s)"
proof -
  from assms have s: "PrintSummary s \<in> set (fst (process p d))"
    by (simp add: main_process)
  from summary_emitted[OF s] obtain acc where
    agg: "aggregate (get_htmls d) (get_convos d) = Inr acc" and
    t: "total_examples s = length (get_htmls d)" and
    k: "kept_examples s = length (kept_scores acc)" and
    sk: "skipped_examples s = skipped acc"
    by blast
  from agg have "over_examples (zip (get_htmls d) (get_convos d))
      \<lparr>kept_scores = [], kept_htmls = [], skipped = 0\<rparr> = Inr acc"
    by (simp add: aggregate_over_examples)
  from over_examples_count[OF this]
  have "length (kept_scores acc) + skipped acc = min (length (get_htmls d)) (length (get_convos d))"
    by simp
  with t k sk show ?thesis by simp
qed

theorem total_examples_is_len_htmls_witness:
  "resolve_input file_args (env_of mismatch_data) = Inr example_path \<and>
   json_load (env_of mismatch_data) example_path = Inr mismatch_data \<and>
   length (get_convos mismatch_data) = 3 \<and> length (get_htmls mismatch_data) = 5 \<and>
   fst (main file_args (env_of mismatch_data)) ! 1 =
     PrintSummary
       \<lparr>summary_file = example_path, original_aggregate_score = JNull,
        total_examples = 5, kept_examples = 2, skipped_examples = 1,
        recomputed_accuracy_excluding_empty = 1 / 2\<rparr> \<and>
   (2::nat) + 1 < 5"
proof -
  let ?s = "\<lparr>summary_file = example_path, original_aggregate_score = JNull,
        total_examples = 5, kept_examples = 2, skipped_examples = 1,
        recomputed_accuracy_excluding_empty = 1 / 2\<rparr>"
  have m: "PrintSummary ?s \<in> set (fst (main file_args (env_of mismatch_data)))"
    by (simp add: mismatch_run)
  have l: "length (get_convos mismatch_data) = 3" "length (get_htmls mismatch_data) = 5"
    by (simp_all add: get_htmls_def get_convos_def mismatch_data_def mismatch_htmls_def
        mismatch_convos_def)
  from total_examples_is_len_htmls[OF resolve_file load_example m] l show ?thesis
    by (simp add: resolve_file load_example mismatch_run)
qed

text \<open>
  Claim C7. When the two sequences differ in length (and the processed conversations
  are of the data model), the run is not fatal: the warning is printed first, the loop
  covers exactly the indices below the minimum \<open>n\<close> (its result is the one of the two
  sequences cut to \<open>n\<close>, and kept plus skipped is \<open>n\<close>), and the run ends with status 0
  after the summary, the report and the announcement.
\<close>

theorem length_mismatch_not_fatal:
  assumes "resolve_input a w = Inr p" and "json_load w p = Inr d"
    and "htmls = get_htmls d" and "convos = get_convos d"
    and "n = min (length htmls) (length convos)"
    and "length htmls \<noteq> length convos"
    and "list_all typed_convo (take n convos)"
  shows "\<exists>acc.
           aggregate (take n htmls) (take n convos) = Inr acc \<and>
           length (kept_scores acc) + skipped acc = n \<and>
           exit_status (snd (main a w)) = 0 \<and>
           main a w =
             ([PrintWarning (length htmls) (length convos),
               PrintSummary
                 \<lparr>summary_file = p,
                  original_aggregate_score = (case data_score d of None \<Rightarrow> JNull | Some v \<Rightarrow> v),
                  total_examples = length htmls,
                  kept_examples = length (kept_scores acc),
                  skipped_examples = skipped acc,
                  recomputed_accuracy_excluding_empty =
                    (if kept_scores acc = [] then 0
                     else sum_list (kept_scores acc) / of_nat (length (kept_scores acc)))\<rparr>,
               WriteReport p
                 (HeaderBlock p (length htmls) (length (kept_scores acc)) (skipped acc)
                    (if kept_scores acc = [] then 0
                     else sum_list (kept_scores acc) / of_nat (length (kept_scores acc)))
                  # map ExampleHtml (kept_htmls acc)),
               PrintWritten p],
              None)"
proof -
  from assms(5,7) obtain acc where agg: "aggregate htmls convos = Inr acc"
    using aggregate_total[of htmls convos] by auto
  have t: "aggregate (take n htmls) (take n convos) = Inr acc"
    using agg aggregate_take[of htmls convos] assms(5) by simp
  have c: "length (kept_scores acc) + skipped acc = n"
    using aggregate_count[OF agg] assms(5) by simp
  have m: "main a w = process p d"
    using assms(1,2) by (rule main_process)
  show ?thesis
    using t c agg assms(3,4,6)
    by (intro exI[of _ acc]) (simp add: m process_eq exit_status_def)
qed

theorem length_mismatch_not_fatal_witness:
  "resolve_input file_args (env_of mismatch_data) = Inr example_path \<and>
   json_load (env_of mismatch_data) example_path = Inr mismatch_data \<and>
   length mismatch_htmls = 5 \<and> length mismatch_convos = 3 \<and>
   list_all typed_convo (take 3 mismatch_convos) \<and>
   aggregate (take 3 mismatch_htmls) (take 3 mismatch_convos) =
     Inr \<lparr>kept_scores = [1, 0],
          kept_htmls = [str ''Score: True'', str ''Score: False''],
          skipped = 1\<rparr> \<and>
   exit_status (snd (main file_args (env_of mismatch_data))) = 0 \<and>
   main file_args (env_of mismatch_data) =
     ([PrintWarning 5 3,
       PrintSummary
         \<lparr>summary_file = example_path, original_aggregate_score = JNull,
          total_examples = 5, kept_examples = 2, skipped_examples = 1,
          recomputed_accuracy_excluding_empty = 1 / 2\<rparr>,
       WriteReport example_path
         [HeaderBlock example_path 5 2 1 (1 / 2),
          ExampleHtml (str ''Score: True''), ExampleHtml (str ''Score: False'')],
       PrintWritten example_path],
      None)"
proof -
  have h: "mismatch_htmls = get_htmls mismatch_data" and c: "mismatch_convos = get_convos mismatch_data"
    by (simp_all add: get_htmls_def get_convos_def mismatch_data_def)
  have l: "length mismatch_htmls = 5" "length mismatch_convos = 3"
    by (simp_all add: mismatch_htmls_def mismatch_convos_def)
  have n: "3 = min (length mismatch_htmls) (length mismatch_convos)"
    and ne: "length mismatch_htmls \<noteq> length mismatch_convos"
    by (simp_all add: l)
  have t: "list_all typed_convo (take 3 mismatch_convos)"
    by (simp add: mismatch_convos_def assistant_says_def typed_convo_def content_is_text_def str_def)
  from length_mismatch_not_fatal[OF resolve_file load_example h c n ne t]
  obtain acc where a: "aggregate (take 3 mismatch_htmls) (take 3 mismatch_convos) = Inr acc"
    by blast
  have "aggregate (take 3 mismatch_htmls) (take 3 mismatch_convos) =
      aggregate mismatch_htmls mismatch_convos"
    using aggregate_take[of mismatch_htmls mismatch_convos] by (simp add: l)
  with a l t show ?thesis
    by (simp add: resolve_file load_example mismatch_run mismatch_aggregate exit_status_def)
qed

text \<open>
  Claim C9. When the parsed object lacks \<^verbatim>\<open>htmls\<close> or \<^verbatim>\<open>convos\<close>, the missing key
  counts as the empty sequence and the run completes with status 0: the summary has no
  kept and no skipped example, and a total of zero when \<^verbatim>\<open>htmls\<close> is the missing key (so
  also when both are missing).
\<close>

theorem missing_keys_are_empty:
  assumes "resolve_input a w = Inr p" and "json_load w p = Inr d"
    and "data_htmls d = None \<or> data_convos d = None"
  shows "(data_htmls d = None \<longrightarrow> get_htmls d = []) \<and>
         (data_convos d = None \<longrightarrow> get_convos d = []) \<and>
         exit_status (snd (main a w)) = 0 \<and>
         main a w =
           ((if length (get_convos d) \<noteq> length (get_htmls d)
             then [PrintWarning (length (get_htmls d)) (length (get_convos d))] else []) @
            [PrintSummary
               \<lparr>summary_file = p,
                original_aggregate_score = (case data_score d of None \<Rightarrow> JNull | Some v \<Rightarrow> v),
                total_examples = (if data_htmls d = None then 0 else length (get_htmls d)),
                kept_examples = 0,
                skipped_examples = 0,
                recomputed_accuracy_excluding_empty = 0\<rparr>,
             WriteReport p [HeaderBlock p (length (get_htmls d)) 0 0 0],
             PrintWritten p],
            None)"
proof -
  have z: "zip (get_htmls d) (get_convos d) = []"
    using assms(3) by (auto simp: get_htmls_def get_convos_def)
  have agg: "aggregate (get_htmls d) (get_convos d) =
      Inr \<lparr>kept_scores = [], kept_htmls = [], skipped = 0\<rparr>"
    by (simp add: aggregate_over_examples z)
  have m: "main a w = process p d"
    using assms(1,2) by (rule main_process)
  have h: "data_htmls d = None \<longrightarrow> get_htmls d = []"
    and c: "data_convos d = None \<longrightarrow> get_convos d = []"
    by (simp_all add: get_htmls_def get_convos_def)
  from h c show ?thesis
    by (simp add: m process_eq agg exit_status_def)
qed

theorem missing_keys_are_empty_witness:
  "resolve_input file_args (env_of keyless_data) = Inr example_path \<and>
   json_load (env_of keyless_data) example_path = Inr keyless_data \<and>
   data_htmls keyless_data = None \<and> data_convos keyless_data = None \<and>
   exit_status (snd (main file_args (env_of keyless_data))) = 0 \<and>
   main file_args (env_of keyless_data) =
     ([PrintSummary
         \<lparr>summary_file = example_path, original_aggregate_score = JNull,
          total_examples = 0, kept_examples = 0, skipped_examples = 0,
          recomputed_accuracy_excluding_empty = 0\<rparr>,
       WriteReport example_path [HeaderBlock example_path 0 0 0 0],
       PrintWritten example_path],
      None)"
proof -
  have k: "data_htmls keyless_data = None \<or> data_convos keyless_data = None"
    by (simp add: keyless_data_def)
  from missing_keys_are_empty[OF resolve_file load_example k] show ?thesis
    by (simp add: resolve_file load_example get_htmls_def get_convos_def keyless_data_def
        exit_status_def)
qed

lemma sort_Nil_iff: "sort xs = [] \<longleftrightarrow> xs = []"
  by (metis length_0_conv length_sort)

text \<open>
  Claim C8. When \<^verbatim>\<open>--file\<close> gives no path and either \<^verbatim>\<open>--latest\<close> is not given or the
  search finds no file, nothing is printed or written and the process ends with a nonzero
  status and a message. These are the only ways to be left without a path: a \<^verbatim>\<open>--file\<close>
  path is taken as it is, without any search, and a search that finds files gives the
  last of them in sorted order.
\<close>

theorem no_input_path_is_fatal:
  "(no_path (arg_file a) \<and> (\<not> arg_latest a \<or> glob_tmp w = []) \<longrightarrow>
      fst (main a w) = [] \<and>
      exit_status (snd (main a w)) \<noteq> 0 \<and>
      exit_message (snd (main a w)) =
        Some (if arg_latest a
              then str ''No /tmp/browsecomp_*_allresults.json files found''
              else str ''Must provide --file or --latest'')) \<and>
   (\<forall>p. arg_file a = Some p \<and> p \<noteq> [] \<longrightarrow> resolve_input a w = Inr p) \<and>
   (no_path (arg_file a) \<and> arg_latest a \<and> glob_tmp w \<noteq> [] \<and> last (sort (glob_tmp w)) \<noteq> [] \<longrightarrow>
      resolve_input a w = Inr (last (sort (glob_tmp w))))"
  by (auto simp: main_def resolve_input_def no_path_def exit_status_def exit_message_def
      Let_def sort_Nil_iff split: option.splits)

text \<open>
  \<^verbatim>\<open>--latest\<close> with nothing to find; no argument at all; \<^verbatim>\<open>--file\<close> together with
  \<^verbatim>\<open>--latest\<close> and nothing to find, where the file is used and the run completes; and
  \<^verbatim>\<open>--latest\<close> with two files to choose from.
\<close>

theorem no_input_path_is_fatal_witness:
  "no_path (arg_file latest_args) \<and> arg_latest latest_args \<and> glob_tmp (env_of scenario_data) = [] \<and>
   main latest_args (env_of scenario_data) =
     ([], Some (SystemExit (str ''No /tmp/browsecomp_*_allresults.json files found''))) \<and>
   exit_status (snd (main latest_args (env_of scenario_data))) = 1 \<and>
   no_path (arg_file no_args) \<and>
   main no_args (env_of scenario_data) =
     ([], Some (SystemExit (str ''Must provide --file or --latest''))) \<and>
   exit_status (snd (main no_args (env_of scenario_data))) = 1 \<and>
   arg_file file_and_latest_args = Some example_path \<and> example_path \<noteq> [] \<and>
   resolve_input file_and_latest_args (env_of keyless_data) = Inr example_path \<and>
   exit_status (snd (main file_and_latest_args (env_of keyless_data))) = 0 \<and>
   resolve_input latest_args
     \<lparr>glob_tmp = [str ''/tmp/browsecomp_2_allresults.json'', str ''/tmp/browsecomp_1_allresults.json''],
      json_load = (\<lambda>p. Inl OSError)\<rparr> = Inr (str ''/tmp/browsecomp_2_allresults.json'')"
proof -
  let ?w = "\<lparr>glob_tmp = [str ''/tmp/browsecomp_2_allresults.json'', str ''/tmp/browsecomp_1_allresults.json''],
      json_load = (\<lambda>p. Inl OSError)\<rparr>"
  have s: "sort (glob_tmp ?w) =
      [str ''/tmp/browsecomp_1_allresults.json'', str ''/tmp/browsecomp_2_allresults.json'']"
    by (simp add: str_def)
  have r: "resolve_input file_and_latest_args (env_of keyless_data) = Inr example_path"
    using no_input_path_is_fatal[of file_and_latest_args "env_of keyless_data"]
    by (simp add: file_and_latest_args_def example_path_nonempty)
  have m: "main file_and_latest_args (env_of keyless_data) = process example_path keyless_data"
    using r load_example by (rule main_process)
  have e: "exit_status (Some x) = 1" for x by (simp add: exit_status_def)
  from no_input_path_is_fatal[of latest_args "env_of scenario_data"]
    no_input_path_is_fatal[of no_args "env_of scenario_data"]
    no_input_path_is_fatal[of latest_args ?w] r
  show ?thesis
    by (simp add: s m keyless_process example_path_nonempty)
      (simp add: latest_args_def no_args_def file_and_latest_args_def env_of_def no_path_def
        main_def resolve_input_def exit_status_def str_def)
qed

end
